theory Spec2Isabelle
  imports Main "HOL-Library.Word"
begin

unbundle bit_operations_syntax

section \<open>Data model of \<^verbatim>\<open>TextCodec.hpp\<close>\<close>

text \<open>
  The header declares its integers with fixed widths: \<^verbatim>\<open>int\<close> and \<^verbatim>\<open>int32\<close> are
  32-bit words, \<^verbatim>\<open>int16\<close> is a 16-bit word and \<^verbatim>\<open>byte\<close> an 8-bit word. The signed
  reading of a word is \<open>sint\<close>, the unsigned one \<open>unat\<close>.
\<close>

type_synonym byte = "8 word"
type_synonym int16 = "16 word"
type_synonym int32 = "32 word"

subsection \<open>\<^verbatim>\<open>class DictEntry\<close>\<close>

text \<open>
  The fields in the order of the header (lines 24-28). A C++ member name starts with an
  underscore, which an Isabelle name cannot, so \<^verbatim>\<open>_hash\<close> is \<open>e_hash\<close> and so on.
  \<^verbatim>\<open>_buf\<close> is a pointer into a byte buffer that the entry does not own; it is modelled
  by the bytes visible from the pointer onwards, and \<^verbatim>\<open>nullptr\<close> by \<open>None\<close>.
\<close>

record DictEntry =
  e_hash :: int32
  e_pos :: int32
  e_idx :: int16
  e_length :: int16
  e_buf :: "byte list option"

text \<open>\<^verbatim>\<open>DictEntry::DictEntry()\<close>, lines 116-123.\<close>

definition DictEntry_default :: DictEntry where
  "DictEntry_default =
     \<lparr> e_hash = 0, e_pos = - 1, e_idx = 0, e_length = 0, e_buf = None \<rparr>"

text \<open>
  \<^verbatim>\<open>DictEntry::DictEntry(const byte buf[], int pos, int32 hash, int idx, int length)\<close>,
  lines 125-132. The conversions \<^verbatim>\<open>int16(idx)\<close> and \<^verbatim>\<open>int16(length)\<close> keep the low
  16 bits of the 32-bit argument (\<open>ucast\<close> to the shorter word), which is what every
  two's-complement compiler does and what C++20 prescribes.
\<close>

definition DictEntry_new :: "byte list \<Rightarrow> int32 \<Rightarrow> int32 \<Rightarrow> int32 \<Rightarrow> int32 \<Rightarrow> DictEntry" where
  "DictEntry_new buf pos hash idx len =
     \<lparr> e_hash = hash, e_pos = pos, e_idx = ucast idx, e_length = ucast len,
       e_buf = Some buf \<rparr>"

subsection \<open>Constants and inline members of \<^verbatim>\<open>class TextCodec\<close>\<close>

definition LOG_DICT_SIZE :: nat where
  "LOG_DICT_SIZE = 15"

definition DICTIONARY_SIZE :: nat where
  "DICTIONARY_SIZE = 2 ^ LOG_DICT_SIZE"

definition LOG_HASHES_SIZE :: nat where
  "LOG_HASHES_SIZE = 24"

definition DEFAULT_ESCAPE_TOKEN1 :: byte where
  "DEFAULT_ESCAPE_TOKEN1 = 0x40"

definition DEFAULT_ESCAPE_TOKEN2 :: byte where
  "DEFAULT_ESCAPE_TOKEN2 = 0x5E"

definition HASH1 :: int32 where
  "HASH1 = 200002979"

definition HASH2 :: int32 where
  "HASH2 = 50004239"

text \<open>\<^verbatim>\<open>inline int getMaxEncodedLength(int srcLen) const { return srcLen; }\<close>, line 71.\<close>

definition getMaxEncodedLength :: "int32 \<Rightarrow> int32" where
  "getMaxEncodedLength srcLen = srcLen"

text \<open>
  The character classifiers, lines 73-79. An operand of \<^verbatim>\<open>&\<close> narrower than \<^verbatim>\<open>int\<close> is
  first promoted to \<^verbatim>\<open>int\<close>: sign-extended when \<^verbatim>\<open>byte\<close> is a signed type,
  zero-extended when it is unsigned. The typedef of \<^verbatim>\<open>byte\<close> is not in the header, so
  the signedness is the parameter \<open>sgd\<close>.
\<close>

definition promote :: "bool \<Rightarrow> byte \<Rightarrow> int32" where
  "promote sgd val = (if sgd then scast val else ucast val)"

text \<open>
  \<^verbatim>\<open>TEXT_CHARS\<close> and \<^verbatim>\<open>DELIMITER_CHARS\<close> point to arrays that \<^verbatim>\<open>initTextChars\<close> and
  \<^verbatim>\<open>initDelimiterChars\<close> build; the header declares the two functions only, so the
  tables are parameters. Reading an array at an index outside of it is undefined
  behaviour in C++; here such a read is \<open>None\<close>.
\<close>

definition tableAt :: "bool list \<Rightarrow> int32 \<Rightarrow> bool option" where
  "tableAt tbl i =
     (if 0 \<le> sint i \<and> nat (sint i) < length tbl then Some (tbl ! nat (sint i)) else None)"

definition isText :: "bool list \<Rightarrow> bool \<Rightarrow> byte \<Rightarrow> bool option" where
  "isText TEXT_CHARS sgd val = tableAt TEXT_CHARS (promote sgd val AND 0xFF)"

definition isDelimiter :: "bool list \<Rightarrow> bool \<Rightarrow> byte \<Rightarrow> bool option" where
  "isDelimiter DELIMITER_CHARS sgd val = tableAt DELIMITER_CHARS (promote sgd val AND 0xFF)"

text \<open>
  \<^verbatim>\<open>isLowerCase\<close> and \<^verbatim>\<open>isUpperCase\<close> compare the promoted value with the character
  codes of \<^verbatim>\<open>'a'\<close>, \<^verbatim>\<open>'z'\<close>, \<^verbatim>\<open>'A'\<close> and \<^verbatim>\<open>'Z'\<close> as signed integers.
\<close>

definition isLowerCase :: "bool \<Rightarrow> byte \<Rightarrow> bool" where
  "isLowerCase sgd val = (97 \<le> sint (promote sgd val) \<and> sint (promote sgd val) \<le> 122)"

definition isUpperCase :: "bool \<Rightarrow> byte \<Rightarrow> bool" where
  "isUpperCase sgd val = (65 \<le> sint (promote sgd val) \<and> sint (promote sgd val) \<le> 90)"

subsection \<open>The fields of a \<^verbatim>\<open>TextCodec\<close> instance\<close>

text \<open>
  The private members, lines 102-109. \<^verbatim>\<open>_dictList\<close> is the array of entries in insertion
  order; the list holds the live entries, so its length is the entry count.
  \<^verbatim>\<open>_dictMap\<close> is an array of pointers into \<^verbatim>\<open>_dictList\<close>, read at \<^verbatim>\<open>hash & _hashMask\<close>:
  a pointer is the position of the entry it points to, \<^verbatim>\<open>nullptr\<close> is \<open>None\<close>.
\<close>

record TextCodec =
  c_dictMap :: "int32 \<rightharpoonup> nat"
  c_dictList :: "DictEntry list"
  c_escape1 :: byte
  c_escape2 :: byte
  c_escapes :: "byte list"
  c_staticDictSize :: int32
  c_logHashSize :: int32
  c_hashMask :: int32

section \<open>The dictionary store\<close>

text \<open>
  Modelled from the spec: the header declares \<^verbatim>\<open>sameWords\<close> (line 92) without a body.
  Spec 3 and 4.2 have the caller re-verify the word bytes with it, byte for byte, over
  \<open>length\<close> bytes. A read past the end of either buffer counts as a mismatch.
\<close>

fun sameWords :: "byte list \<Rightarrow> byte list \<Rightarrow> nat \<Rightarrow> bool" where
  "sameWords src dst 0 = True"
| "sameWords (x # src) (y # dst) (Suc n) = (x = y \<and> sameWords src dst n)"
| "sameWords src dst (Suc n) = False"

text \<open>
  Modelled from the spec: the byte slice of an entry, \<^verbatim>\<open>buffer_view[0..length]\<close> in spec 3,
  is the first \<^verbatim>\<open>_length\<close> bytes seen through \<^verbatim>\<open>_buf\<close>. There is no such slice when the pointer is null, the
  stored length is negative or the buffer is shorter than the stored length.
\<close>

definition entrySlice :: "DictEntry \<Rightarrow> byte list option" where
  "entrySlice e =
     (case e_buf e of
        None \<Rightarrow> None
      | Some buf \<Rightarrow>
          if 0 \<le> sint (e_length e) \<and> nat (sint (e_length e)) \<le> length buf
          then Some (take (nat (sint (e_length e))) buf) else None)"

text \<open>
  Modelled from the spec: \<^verbatim>\<open>lookup(wordBytes, hash)\<close> of spec 4.2, whose code is in the
  bodies of \<^verbatim>\<open>forward\<close> and \<^verbatim>\<open>inverse\<close>, which the header does not have. The slot is
  \<^verbatim>\<open>hash & hashMask\<close>; a hit needs the stored hash to match and the entry's byte slice
  to equal the word: the stored length is compared with the word's length and the
  bytes with \<open>sameWords\<close>. The index returned is the entry's \<^verbatim>\<open>_idx\<close>, read as a signed
  integer.
\<close>

definition lookup :: "TextCodec \<Rightarrow> byte list \<Rightarrow> int32 \<Rightarrow> int option" where
  "lookup c wordBytes hash =
     (case c_dictMap c (hash AND c_hashMask c) of
        None \<Rightarrow> None
      | Some p \<Rightarrow>
          if p < length (c_dictList c) then
            (let e = c_dictList c ! p in
             if e_hash e = hash \<and> sint (e_length e) = int (length wordBytes) \<and>
                (case e_buf e of
                   None \<Rightarrow> False
                 | Some buf \<Rightarrow> sameWords buf wordBytes (length wordBytes))
             then Some (sint (e_idx e)) else None)
          else None)"

text \<open>
  Modelled from the spec: \<^verbatim>\<open>insert(wordBytes, pos, hash)\<close> of spec 4.2. At
  \<open>DICTIONARY_SIZE\<close> entries the insertion is refused. Otherwise an entry with the next
  index is appended, built by the header's constructor, and its position is written
  into the slot \<^verbatim>\<open>hash & hashMask\<close> over whatever was there.
\<close>

definition insert_word :: "TextCodec \<Rightarrow> byte list \<Rightarrow> int32 \<Rightarrow> int32 \<Rightarrow> TextCodec" where
  "insert_word c wordBytes pos hash =
     (if DICTIONARY_SIZE \<le> length (c_dictList c) then c
      else c \<lparr> c_dictMap := (c_dictMap c)(hash AND c_hashMask c \<mapsto> length (c_dictList c)),
               c_dictList := c_dictList c @
                 [DictEntry_new wordBytes pos hash (of_nat (length (c_dictList c)))
                    (of_nat (length wordBytes))] \<rparr>)"

text \<open>
  Modelled from the spec: \<^verbatim>\<open>retrieve(index)\<close> of spec 4.2. The index must be at least 0
  and below the entry count; the result is the entry's byte slice.
\<close>

definition retrieve :: "TextCodec \<Rightarrow> int \<Rightarrow> byte list option" where
  "retrieve c index =
     (if 0 \<le> index \<and> nat index < length (c_dictList c)
      then entrySlice (c_dictList c ! nat index) else None)"

text \<open>
  What the store keeps true from an empty dictionary on: the entry count stays within
  \<open>DICTIONARY_SIZE\<close>, every entry's \<^verbatim>\<open>_idx\<close> is its position in \<^verbatim>\<open>_dictList\<close>, and every
  pointer in \<^verbatim>\<open>_dictMap\<close> points to a live entry.
\<close>

definition store_ok :: "TextCodec \<Rightarrow> bool" where
  "store_ok c \<longleftrightarrow>
     length (c_dictList c) \<le> DICTIONARY_SIZE \<and>
     (\<forall>p < length (c_dictList c). sint (e_idx (c_dictList c ! p)) = int p) \<and>
     (\<forall>p \<in> ran (c_dictMap c). p < length (c_dictList c))"

text \<open>A codec instance with no entries, \<open>2 ^ 4\<close> slots and the default escape bytes.\<close>

definition emptyCodec :: TextCodec where
  "emptyCodec =
     \<lparr> c_dictMap = Map.empty, c_dictList = [],
       c_escape1 = DEFAULT_ESCAPE_TOKEN1, c_escape2 = DEFAULT_ESCAPE_TOKEN2,
       c_escapes = [DEFAULT_ESCAPE_TOKEN1, DEFAULT_ESCAPE_TOKEN2],
       c_staticDictSize = 0, c_logHashSize = 4, c_hashMask = 15 \<rparr>"

section \<open>The forward transform\<close>

text \<open>
  Modelled from the spec: what the header names without content and what spec 3 to 4.5
  leave open is a parameter of the transform. \<open>delimiterChars\<close> and \<open>textChars\<close> are
  the tables \<^verbatim>\<open>DELIMITER_CHARS\<close> and \<^verbatim>\<open>TEXT_CHARS\<close>, \<open>byteSigned\<close> the signedness of
  \<^verbatim>\<open>byte\<close>; \<open>hashOf\<close> is the hash of a word ("a fixed
  multiplicative scheme", no formula given); \<open>minWordLength\<close> is the "some minimum" of
  spec 4.5; \<open>literalEscape\<close> gives the bytes written for a literal escape byte
  ("doubling or a reserved index value", spec 4.4); \<open>emit2ViaEscape1\<close> chooses between
  the two forms of a two-byte index that spec 4.4 allows.
\<close>

record params =
  delimiterChars :: "bool list"
  textChars :: "bool list"
  byteSigned :: bool
  hashOf :: "byte list \<Rightarrow> int32"
  minWordLength :: nat
  literalEscape :: "byte \<Rightarrow> byte list"
  emit2ViaEscape1 :: bool

text \<open>
  The header's classifiers on the tables of the parameters. A read outside of a table
  gives no answer and counts as "no".
\<close>

definition is_delimiter :: "params \<Rightarrow> byte \<Rightarrow> bool" where
  "is_delimiter P b \<longleftrightarrow> isDelimiter (delimiterChars P) (byteSigned P) b = Some True"

definition is_text :: "params \<Rightarrow> byte \<Rightarrow> bool" where
  "is_text P b \<longleftrightarrow> isText (textChars P) (byteSigned P) b = Some True"

text \<open>
  Modelled from the spec: the escape/index codec of spec 4.4, whose code is in the
  bodies the header does not have. An index of 0..127 is written as \<^verbatim>\<open>escape1\<close> and one
  data byte holding the index; any other index as an escape byte and two data bytes,
  most significant first: after \<^verbatim>\<open>escape2\<close>, or after \<^verbatim>\<open>escape1\<close> with the high bit of the
  first data byte set.
\<close>

definition indexBytes :: "params \<Rightarrow> TextCodec \<Rightarrow> int \<Rightarrow> byte list" where
  "indexBytes P c idx =
     (if 0 \<le> idx \<and> idx \<le> 127 then [c_escape1 c, word_of_int idx]
      else if emit2ViaEscape1 P
        then [c_escape1 c, word_of_int (idx div 256) OR 0x80, word_of_int (idx mod 256)]
        else [c_escape2 c, word_of_int (idx div 256), word_of_int (idx mod 256)])"

text \<open>
  Modelled from the spec: the two states of the encoder in spec 4.5. \<open>IN_WORD\<close> carries
  the bytes of the word accumulated so far.
\<close>

datatype fwd_state = COPY | IN_WORD "byte list"

text \<open>
  Modelled from the spec: what one call of \<^verbatim>\<open>forward\<close> works on. \<open>en_codec\<close> is the
  dictionary of this call, which starts as the seeded instance (spec 3, lifecycle);
  \<open>en_dst\<close> holds the bytes written to the destination so far; \<open>en_srcIdx\<close> counts the
  source bytes read.
\<close>

record encoder =
  en_codec :: TextCodec
  en_dst :: "byte list"
  en_srcIdx :: nat
  en_state :: fwd_state

text \<open>
  Modelled from the spec: every write is checked against the destination capacity
  first (spec 4.5 and 7); a write that would pass \<open>dstEnd\<close> aborts the transform. The
  capacity \<open>None\<close> stands for a destination without bound; it gives the output the
  transform "would" produce.
\<close>

fun fits :: "nat option \<Rightarrow> nat \<Rightarrow> bool" where
  "fits None n = True"
| "fits (Some dstEnd) n = (n \<le> dstEnd)"

definition writeBytes :: "nat option \<Rightarrow> byte list \<Rightarrow> encoder \<Rightarrow> encoder option" where
  "writeBytes dstEnd bytes s =
     (if fits dstEnd (length (en_dst s) + length bytes)
      then Some (s \<lparr> en_dst := en_dst s @ bytes \<rparr>) else None)"

text \<open>
  Modelled from the spec: closing a word (spec 4.5). A word of at least the minimum
  length, which is never below 2, is hashed and looked up. On a hit the index is
  written in place of the word. On a miss the word is copied unchanged and then
  inserted with the position of its first byte. A shorter word is copied.
\<close>

definition closeWord :: "params \<Rightarrow> nat option \<Rightarrow> byte list \<Rightarrow> encoder \<Rightarrow> encoder option" where
  "closeWord P dstEnd w s =
     (if 2 \<le> length w \<and> minWordLength P \<le> length w then
        (case lookup (en_codec s) w (hashOf P w) of
           Some idx \<Rightarrow> writeBytes dstEnd (indexBytes P (en_codec s) idx) s
         | None \<Rightarrow>
             (case writeBytes dstEnd w s of
                None \<Rightarrow> None
              | Some s' \<Rightarrow>
                  Some (s' \<lparr> en_codec := insert_word (en_codec s') w
                                (of_nat (en_srcIdx s' - length w)) (hashOf P w) \<rparr>)))
      else writeBytes dstEnd w s)"

text \<open>
  Modelled from the spec: a byte met in \<open>COPY\<close> that does not start a word is copied,
  a literal escape byte by the escaped-literal rule (spec 4.5).
\<close>

definition copyByte :: "params \<Rightarrow> nat option \<Rightarrow> byte \<Rightarrow> encoder \<Rightarrow> encoder option" where
  "copyByte P dstEnd b s =
     (if b = c_escape1 (en_codec s) \<or> b = c_escape2 (en_codec s)
      then writeBytes dstEnd (literalEscape P b) s
      else writeBytes dstEnd [b] s)"

text \<open>
  Modelled from the spec: "a non-delimiter text byte moves \<open>COPY\<close> to \<open>IN_WORD\<close>"
  (spec 4.5); an escape byte is handled in \<open>COPY\<close> and starts no word.
\<close>

definition startsWord :: "params \<Rightarrow> TextCodec \<Rightarrow> byte \<Rightarrow> bool" where
  "startsWord P c b \<longleftrightarrow>
     b \<noteq> c_escape1 c \<and> b \<noteq> c_escape2 c \<and> \<not> is_delimiter P b \<and> is_text P b"

text \<open>
  Modelled from the spec: one byte of the source through the state machine of spec
  4.5. In \<open>IN_WORD\<close> a delimiter closes the word, the machine returns to \<open>COPY\<close> and the
  delimiter is handled there; any other byte joins the word.
\<close>

definition fwdStep :: "params \<Rightarrow> nat option \<Rightarrow> encoder \<Rightarrow> byte \<Rightarrow> encoder option" where
  "fwdStep P dstEnd s b =
     (case en_state s of
        COPY \<Rightarrow>
          if startsWord P (en_codec s) b
          then Some (s \<lparr> en_state := IN_WORD [b] \<rparr>)
          else copyByte P dstEnd b s
      | IN_WORD w \<Rightarrow>
          if is_delimiter P b then
            (case closeWord P dstEnd w s of
               None \<Rightarrow> None
             | Some s' \<Rightarrow> copyByte P dstEnd b (s' \<lparr> en_state := COPY \<rparr>))
          else Some (s \<lparr> en_state := IN_WORD (w @ [b]) \<rparr>))"

text \<open>Modelled from the spec: the loop over the source bytes; it stops at the first failed write.\<close>

fun fwdRun :: "params \<Rightarrow> nat option \<Rightarrow> encoder \<Rightarrow> byte list \<Rightarrow> encoder option" where
  "fwdRun P dstEnd s [] = Some s"
| "fwdRun P dstEnd s (b # src) =
     (case fwdStep P dstEnd s b of
        None \<Rightarrow> None
      | Some s' \<Rightarrow> fwdRun P dstEnd (s' \<lparr> en_srcIdx := en_srcIdx s' + 1 \<rparr>) src)"

text \<open>Modelled from the spec: "end-of-buffer also closes an open word" (spec 4.5).\<close>

definition fwdFinish :: "params \<Rightarrow> nat option \<Rightarrow> encoder \<Rightarrow> encoder option" where
  "fwdFinish P dstEnd s =
     (case en_state s of
        COPY \<Rightarrow> Some s
      | IN_WORD w \<Rightarrow> map_option (\<lambda>s'. s' \<lparr> en_state := COPY \<rparr>) (closeWord P dstEnd w s))"

text \<open>
  Modelled from the spec: the whole pass over the source, from the seeded instance,
  an empty destination and the state \<open>COPY\<close>.
\<close>

definition encode :: "params \<Rightarrow> nat option \<Rightarrow> TextCodec \<Rightarrow> byte list \<Rightarrow> encoder option" where
  "encode P dstEnd c src =
     (case fwdRun P dstEnd \<lparr> en_codec = c, en_dst = [], en_srcIdx = 0, en_state = COPY \<rparr> src of
        None \<Rightarrow> None
      | Some s \<Rightarrow> fwdFinish P dstEnd s)"

text \<open>
  Modelled from the spec: \<^verbatim>\<open>forward(source, destination, length)\<close> of spec 6, declared at
  line 63 without a body. \<open>src\<close> holds the \<open>length\<close> source bytes. The destination
  capacity is \<^verbatim>\<open>getMaxEncodedLength(length)\<close>. The result \<open>None\<close> is the failure flag:
  a write would pass the capacity, or the output is not strictly shorter than the
  source. \<open>Some out\<close> is success with the bytes written.
\<close>

definition forward :: "params \<Rightarrow> TextCodec \<Rightarrow> byte list \<Rightarrow> byte list option" where
  "forward P c src =
     (case encode P (Some (nat (sint (getMaxEncodedLength (of_nat (length src)))))) c src of
        None \<Rightarrow> None
      | Some s \<Rightarrow> if length (en_dst s) < length src then Some (en_dst s) else None)"

subsection \<open>A concrete configuration\<close>

text \<open>
  One choice of the parameters, for running the transform on concrete inputs: a hash
  of the multiplicative shape with the header's \<open>HASH1\<close> and \<open>HASH2\<close>, a delimiter table
  of the control, space and punctuation codes, a text table of the printable codes,
  an unsigned \<^verbatim>\<open>byte\<close>, a minimum word length of 2, doubled literal escape bytes and
  \<^verbatim>\<open>escape2\<close> before a two-byte index. The dictionary holds the word \<^verbatim>\<open>"the"\<close>.
\<close>

definition exampleHash :: "byte list \<Rightarrow> int32" where
  "exampleHash w = foldl (\<lambda>h b. h * HASH1 XOR ucast b * HASH2) HASH1 w"

definition exampleParams :: params where
  "exampleParams =
     \<lparr> delimiterChars =
         map (\<lambda>i. i \<le> 47 \<or> (58 \<le> i \<and> i \<le> 64) \<or> (91 \<le> i \<and> i \<le> 96) \<or> (123 \<le> i \<and> i \<le> 127))
           [0..<256],
       textChars = map (\<lambda>i. 32 \<le> i \<and> i \<le> 126) [0..<256],
       byteSigned = False, hashOf = exampleHash, minWordLength = 2,
       literalEscape = (\<lambda>b. [b, b]), emit2ViaEscape1 = False \<rparr>"

definition exampleCodec :: TextCodec where
  "exampleCodec =
     insert_word emptyCodec [0x74, 0x68, 0x65] (- 1) (exampleHash [0x74, 0x68, 0x65])"

section \<open>Properties of the header's inline code\<close>

subsection \<open>Conversions between the integer widths\<close>

lemma sint_ucast_byte: "sint (ucast (val :: byte) :: int32) = int (unat val)"
proof -
  have u: "uint (ucast val :: int32) = uint val"
    by (simp add: uint_up_ucast is_up)
  have b: "uint val < 2 ^ 8"
    using uint_bounded [of val] by simp
  have c: "- (2 ^ 31) \<le> uint val"
    by (rule order_trans [of _ 0]) simp_all
  have d: "uint val < 2 ^ 31"
    by (rule less_trans [OF b]) simp
  have "signed_take_bit 31 (uint val) = uint val"
    using c d by (rule signed_take_bit_int_eq_self)
  then show ?thesis
    by (simp add: sint_uint u)
qed

lemma ucast_low_byte: "(ucast (val :: byte) :: int32) AND 0xFF = ucast val"
proof -
  have m: "(0xFF :: int32) = mask 8"
    by (simp add: mask_eq_exp_minus_1)
  show ?thesis
    unfolding m
    by (rule bit_word_eqI)
      (auto simp add: bit_and_iff bit_mask_iff bit_ucast_iff dest: bit_imp_le_length)
qed

lemma scast_low_byte: "(scast (val :: byte) :: int32) AND 0xFF = ucast val"
proof -
  have m: "(0xFF :: int32) = mask 8"
    by (simp add: mask_eq_exp_minus_1)
  show ?thesis
    unfolding m
  proof (rule bit_word_eqI)
    fix n
    assume "n < LENGTH(32)"
    show "bit ((scast val :: int32) AND mask 8) n = bit (ucast val :: int32) n"
    proof (cases "n < 8")
      case True
      then have "n < 7 \<or> n = 7"
        by auto
      then show ?thesis
        by (auto simp add: bit_and_iff bit_mask_iff bit_ucast_iff bit_signed_iff min_def)
    next
      case False
      then have "\<not> bit val n"
        using bit_imp_le_length [of val n] by auto
      with False show ?thesis
        by (simp add: bit_and_iff bit_mask_iff bit_ucast_iff)
    qed
  qed
qed

lemma promote_low_byte: "promote sgd val AND 0xFF = ucast val"
  by (simp add: promote_def ucast_low_byte scast_low_byte)

lemma unat_byte_less: "unat (val :: byte) < 256"
  using unsigned_less [of val, where 'a = nat] by simp

lemma sint_eq_uint_minus: "\<exists>b :: int. sint (x :: int32) = uint x - 4294967296 * b"
proof -
  have "sint x = take_bit 32 (uint x) - 2 ^ 32 * of_bool (bit (uint x) 31)"
    by (simp add: sint_uint signed_take_bit_eq_take_bit_minus)
  moreover have "take_bit 32 (uint x) = uint x"
    by (simp add: take_bit_int_eq_self_iff uint_bounded [of x, simplified])
  ultimately show ?thesis
    by auto
qed

lemma sint_ucast16: "sint (ucast (x :: int32) :: int16) = (sint x + 32768) mod 65536 - 32768"
proof -
  obtain b :: int where b: "sint x = uint x - 4294967296 * b"
    using sint_eq_uint_minus by blast
  have "sint (ucast x :: int16) = sint (word_of_int (uint x) :: int16)"
    by (simp only: ucast_eq)
  also have "\<dots> = (uint x + 32768) mod 65536 - 32768"
    unfolding int_word_sint by simp
  also have "(uint x + 32768) mod 65536 = (sint x + 32768) mod 65536"
  proof -
    have "uint x + 32768 = (sint x + 32768) + 65536 * (65536 * b)"
      using b by simp
    then show ?thesis
      by (metis mod_mult_self2)
  qed
  finally show ?thesis .
qed

lemma wrap16_range: "- 32768 \<le> (k + 32768) mod 65536 - 32768 \<and> (k + 32768) mod 65536 - 32768 \<le> (32767 :: int)"
proof -
  have "0 \<le> (k + 32768) mod 65536" and "(k + 32768) mod 65536 < 65536"
    by simp_all
  then show ?thesis
    by linarith
qed

lemma wrap16_id: "- 32768 \<le> k \<Longrightarrow> k \<le> 32767 \<Longrightarrow> (k + 32768) mod 65536 - 32768 = (k :: int)"
  by simp

lemma sint_of_nat_idx:
  assumes "p < 32768"
  shows "sint (ucast (of_nat p :: int32) :: int16) = int p"
proof -
  have u: "uint (of_nat p :: int32) = int p"
    using assms by (simp add: uint_nat unat_of_nat)
  have "sint (ucast (of_nat p :: int32) :: int16) = sint (word_of_int (int p) :: int16)"
    by (simp only: ucast_eq u)
  also have "\<dots> = (int p + 32768) mod 65536 - 32768"
    unfolding int_word_sint by simp
  also have "\<dots> = int p"
    using assms by simp
  finally show ?thesis .
qed

subsection \<open>\<^verbatim>\<open>getMaxEncodedLength\<close>\<close>

text \<open>
  C8. For every source length \<open>srcLen\<close>, \<^verbatim>\<open>getMaxEncodedLength(srcLen)\<close> returns exactly
  \<open>srcLen\<close>: the destination capacity that \<^verbatim>\<open>forward\<close> is allowed equals the source
  length.
\<close>

theorem getMaxEncodedLength_is_srcLen: "getMaxEncodedLength srcLen = srcLen"
  by (simp add: getMaxEncodedLength_def)

subsection \<open>The constructor of \<^verbatim>\<open>DictEntry\<close>\<close>

text \<open>
  C9. The constructor narrows its \<^verbatim>\<open>int\<close> arguments \<open>idx\<close> and \<open>length\<close> to 16 bits: the
  stored \<^verbatim>\<open>_idx\<close> and \<^verbatim>\<open>_length\<close> are the arguments wrapped modulo \<open>2 ^ 16\<close> into the
  range of \<^verbatim>\<open>int16\<close>. An argument within that range is stored as it is; an argument
  outside of it (a length above 32767, an index from 32768 on, or anything below
  -32768) is not rejected, and the stored value differs from the one passed in.
\<close>

theorem DictEntry_new_narrows_to_int16:
  "sint (e_idx (DictEntry_new buf pos hash idx len)) = (sint idx + 32768) mod 65536 - 32768
   \<and> sint (e_length (DictEntry_new buf pos hash idx len)) = (sint len + 32768) mod 65536 - 32768
   \<and> (- 32768 \<le> sint idx \<and> sint idx \<le> 32767 \<longrightarrow>
        sint (e_idx (DictEntry_new buf pos hash idx len)) = sint idx)
   \<and> (- 32768 \<le> sint len \<and> sint len \<le> 32767 \<longrightarrow>
        sint (e_length (DictEntry_new buf pos hash idx len)) = sint len)
   \<and> (sint idx < - 32768 \<or> 32767 < sint idx \<longrightarrow>
        sint (e_idx (DictEntry_new buf pos hash idx len)) \<noteq> sint idx)
   \<and> (sint len < - 32768 \<or> 32767 < sint len \<longrightarrow>
        sint (e_length (DictEntry_new buf pos hash idx len)) \<noteq> sint len)"
proof -
  have i: "sint (e_idx (DictEntry_new buf pos hash idx len)) = (sint idx + 32768) mod 65536 - 32768"
    by (simp add: DictEntry_new_def sint_ucast16)
  have l: "sint (e_length (DictEntry_new buf pos hash idx len)) = (sint len + 32768) mod 65536 - 32768"
    by (simp add: DictEntry_new_def sint_ucast16)
  show ?thesis
    unfolding i l
    using wrap16_range [of "sint idx"] wrap16_range [of "sint len"]
      wrap16_id [of "sint idx"] wrap16_id [of "sint len"]
    by auto
qed

theorem DictEntry_new_narrows_witness:
  "32767 < sint (32768 :: int32) \<and> 32767 < sint (40000 :: int32)
   \<and> sint (e_idx (DictEntry_new [] 0 0 32768 40000)) = - 32768
   \<and> sint (e_length (DictEntry_new [] 0 0 32768 40000)) = - 25536
   \<and> sint (e_idx (DictEntry_new [] 0 0 32768 40000)) \<noteq> sint (32768 :: int32)
   \<and> sint (e_length (DictEntry_new [] 0 0 32768 40000)) \<noteq> sint (40000 :: int32)"
  using DictEntry_new_narrows_to_int16 [of "[]" 0 0 32768 40000]
  by simp

subsection \<open>The character classifiers\<close>

text \<open>
  C10. \<^verbatim>\<open>isText\<close> and \<^verbatim>\<open>isDelimiter\<close> read their tables at \<^verbatim>\<open>val & 0xFF\<close>. For tables of
  256 entries and every byte \<open>val\<close>, whether \<^verbatim>\<open>byte\<close> is a signed or an unsigned type,
  the index lies in 0..255, so the read is inside the table and each predicate
  returns the table's entry at the byte's unsigned value.
\<close>

theorem classifier_reads_in_range:
  assumes "length TEXT_CHARS = 256" and "length DELIMITER_CHARS = 256"
  shows "0 \<le> sint (promote sgd val AND 0xFF) \<and> sint (promote sgd val AND 0xFF) < 256
    \<and> isText TEXT_CHARS sgd val = Some (TEXT_CHARS ! unat val)
    \<and> isDelimiter DELIMITER_CHARS sgd val = Some (DELIMITER_CHARS ! unat val)"
proof -
  have s: "sint (promote sgd val AND 0xFF) = int (unat val)"
    by (simp only: promote_low_byte sint_ucast_byte)
  have "tableAt TEXT_CHARS (promote sgd val AND 0xFF) = Some (TEXT_CHARS ! unat val)"
    unfolding tableAt_def s using assms(1) unat_byte_less [of val] by simp
  moreover have "tableAt DELIMITER_CHARS (promote sgd val AND 0xFF) = Some (DELIMITER_CHARS ! unat val)"
    unfolding tableAt_def s using assms(2) unat_byte_less [of val] by simp
  moreover have "int (unat val) < 256"
    using unat_byte_less [of val] by linarith
  ultimately show ?thesis
    unfolding isText_def isDelimiter_def s by (simp del: of_nat_unat)
qed

theorem classifier_reads_witness:
  "length (map (\<lambda>i. 97 \<le> i \<and> i \<le> 122) [0..<256]) = 256
   \<and> length (map (\<lambda>i. i \<le> 47) [0..<256]) = 256
   \<and> isText (map (\<lambda>i. 97 \<le> i \<and> i \<le> 122) [0..<256]) True 0xC3 = Some False
   \<and> isDelimiter (map (\<lambda>i. i \<le> 47) [0..<256]) True 0x20 = Some True
   \<and> sint (promote True 0xC3) = - 61"
proof -
  have a: "length (map (\<lambda>i :: nat. 97 \<le> i \<and> i \<le> 122) [0..<256]) = 256"
    by simp
  have b: "length (map (\<lambda>i :: nat. i \<le> 47) [0..<256]) = 256"
    by simp
  have c: "sint (promote True 0xC3) = - 61"
    by (simp add: promote_def)
  show ?thesis
    using classifier_reads_in_range [OF a b, of True "0xC3"]
      classifier_reads_in_range [OF a b, of True "0x20"] c
    by simp
qed

section \<open>Properties of the dictionary store\<close>

lemma sameWords_iff:
  "sameWords src dst n \<longleftrightarrow> n \<le> length src \<and> n \<le> length dst \<and> take n src = take n dst"
  by (induction src dst n rule: sameWords.induct) auto

lemma slice_hit_iff:
  "(sint (e_length e) = int (length w) \<and>
    (case e_buf e of None \<Rightarrow> False | Some buf \<Rightarrow> sameWords buf w (length w)))
   \<longleftrightarrow> entrySlice e = Some w"
  by (auto simp add: entrySlice_def sameWords_iff split: option.splits)

lemma lookup_char:
  "lookup c w h =
     (case c_dictMap c (h AND c_hashMask c) of
        None \<Rightarrow> None
      | Some p \<Rightarrow>
          if p < length (c_dictList c) \<and> e_hash (c_dictList c ! p) = h \<and>
             entrySlice (c_dictList c ! p) = Some w
          then Some (sint (e_idx (c_dictList c ! p))) else None)"
proof (cases "c_dictMap c (h AND c_hashMask c)")
  case None
  then show ?thesis
    by (simp add: lookup_def)
next
  case (Some p)
  show ?thesis
    using slice_hit_iff [of "c_dictList c ! p" w]
    by (simp add: lookup_def Let_def Some)
qed

lemma store_ok_empty: "store_ok emptyCodec"
  by (simp add: store_ok_def emptyCodec_def)

lemma store_ok_insert: "store_ok c \<Longrightarrow> store_ok (insert_word c w pos h)"
  by (auto simp add: store_ok_def insert_word_def nth_append DictEntry_new_def
      DICTIONARY_SIZE_def LOG_DICT_SIZE_def sint_of_nat_idx ran_def split: if_splits)

lemma insert_word_refused:
  "DICTIONARY_SIZE \<le> length (c_dictList c) \<Longrightarrow> insert_word c w pos h = c"
  by (simp add: insert_word_def)

lemma lookup_index_in_store:
  assumes "store_ok c" and "lookup c w h = Some i"
  shows "0 \<le> i \<and> nat i < length (c_dictList c) \<and> entrySlice (c_dictList c ! nat i) = Some w
    \<and> e_hash (c_dictList c ! nat i) = h"
proof -
  from assms(2) obtain p where p: "c_dictMap c (h AND c_hashMask c) = Some p"
    "p < length (c_dictList c)" "e_hash (c_dictList c ! p) = h"
    "entrySlice (c_dictList c ! p) = Some w" "i = sint (e_idx (c_dictList c ! p))"
    by (auto simp add: lookup_char split: option.splits if_splits)
  from assms(1) p(2) have "sint (e_idx (c_dictList c ! p)) = int p"
    by (simp add: store_ok_def)
  with p show ?thesis
    by simp
qed

text \<open>
  C5. \<open>lookup\<close> reads the slot \<^verbatim>\<open>hash & hashMask\<close> and reports the index of the entry
  there only if the stored hash matches and the entry's byte slice equals the queried
  word byte for byte; whenever all of that holds it does report that index. If the
  slot holds the entry of another word (two words whose hashes meet in one slot),
  the answer is "not found", never the other word's index. In a store that keeps
  \<open>store_ok\<close>, the reported index retrieves the queried word.
\<close>

theorem lookup_no_false_hit:
  "(lookup c wordBytes hash = Some i \<longrightarrow>
      (\<exists>p. c_dictMap c (hash AND c_hashMask c) = Some p \<and> p < length (c_dictList c) \<and>
           e_hash (c_dictList c ! p) = hash \<and>
           entrySlice (c_dictList c ! p) = Some wordBytes \<and>
           i = sint (e_idx (c_dictList c ! p))))
   \<and> (c_dictMap c (hash AND c_hashMask c) = Some p \<and> p < length (c_dictList c) \<and>
        e_hash (c_dictList c ! p) = hash \<and> entrySlice (c_dictList c ! p) = Some wordBytes \<longrightarrow>
        lookup c wordBytes hash = Some (sint (e_idx (c_dictList c ! p))))
   \<and> (c_dictMap c (hash AND c_hashMask c) = Some q \<and>
        entrySlice (c_dictList c ! q) = Some other \<and> other \<noteq> wordBytes \<longrightarrow>
        lookup c wordBytes hash = None)
   \<and> (store_ok c \<and> lookup c wordBytes hash = Some i \<longrightarrow> retrieve c i = Some wordBytes)"
proof (intro conjI impI)
  assume "lookup c wordBytes hash = Some i"
  then show "\<exists>p. c_dictMap c (hash AND c_hashMask c) = Some p \<and> p < length (c_dictList c) \<and>
      e_hash (c_dictList c ! p) = hash \<and> entrySlice (c_dictList c ! p) = Some wordBytes \<and>
      i = sint (e_idx (c_dictList c ! p))"
    by (auto simp add: lookup_char split: option.splits if_splits)
next
  assume "c_dictMap c (hash AND c_hashMask c) = Some p \<and> p < length (c_dictList c) \<and>
      e_hash (c_dictList c ! p) = hash \<and> entrySlice (c_dictList c ! p) = Some wordBytes"
  then show "lookup c wordBytes hash = Some (sint (e_idx (c_dictList c ! p)))"
    by (simp add: lookup_char)
next
  assume "c_dictMap c (hash AND c_hashMask c) = Some q \<and>
      entrySlice (c_dictList c ! q) = Some other \<and> other \<noteq> wordBytes"
  then show "lookup c wordBytes hash = None"
    by (simp add: lookup_char)
next
  assume "store_ok c \<and> lookup c wordBytes hash = Some i"
  then show "retrieve c i = Some wordBytes"
    using lookup_index_in_store [of c wordBytes hash i] by (simp add: retrieve_def)
qed

text \<open>
  The words \<^verbatim>\<open>"alpha"\<close> and \<^verbatim>\<open>"omega"\<close> with hashes that meet in slot 5 of a 16-slot
  table: with only \<^verbatim>\<open>"alpha"\<close> inserted, \<^verbatim>\<open>"omega"\<close> is not found under its own hash nor
  under the hash of \<^verbatim>\<open>"alpha"\<close>.
\<close>

theorem lookup_no_false_hit_witness:
  "store_ok (insert_word emptyCodec [0x61, 0x6C, 0x70, 0x68, 0x61] 0 0x35)
   \<and> lookup (insert_word emptyCodec [0x61, 0x6C, 0x70, 0x68, 0x61] 0 0x35)
        [0x61, 0x6C, 0x70, 0x68, 0x61] 0x35 = Some 0
   \<and> retrieve (insert_word emptyCodec [0x61, 0x6C, 0x70, 0x68, 0x61] 0 0x35) 0
        = Some [0x61, 0x6C, 0x70, 0x68, 0x61]
   \<and> lookup (insert_word emptyCodec [0x61, 0x6C, 0x70, 0x68, 0x61] 0 0x35)
        [0x6F, 0x6D, 0x65, 0x67, 0x61] 0x45 = None
   \<and> lookup (insert_word emptyCodec [0x61, 0x6C, 0x70, 0x68, 0x61] 0 0x35)
        [0x6F, 0x6D, 0x65, 0x67, 0x61] 0x35 = None"
proof -
  let ?alpha = "[0x61, 0x6C, 0x70, 0x68, 0x61] :: byte list"
  let ?omega = "[0x6F, 0x6D, 0x65, 0x67, 0x61] :: byte list"
  let ?c = "insert_word emptyCodec ?alpha 0 0x35"
  have ok: "store_ok ?c"
    by (rule store_ok_insert [OF store_ok_empty])
  have slot: "c_dictMap ?c (0x45 AND c_hashMask ?c) = Some 0"
    "c_dictMap ?c (0x35 AND c_hashMask ?c) = Some 0"
    by (simp_all add: insert_word_def emptyCodec_def DICTIONARY_SIZE_def LOG_DICT_SIZE_def)
  have entry: "entrySlice (c_dictList ?c ! 0) = Some ?alpha" "e_hash (c_dictList ?c ! 0) = 0x35"
    "sint (e_idx (c_dictList ?c ! 0)) = 0" "0 < length (c_dictList ?c)"
    by (simp_all add: insert_word_def emptyCodec_def DICTIONARY_SIZE_def LOG_DICT_SIZE_def
        DictEntry_new_def entrySlice_def)
  have ne: "?alpha \<noteq> ?omega"
    by simp
  have hit: "lookup ?c ?alpha 0x35 = Some 0"
    using lookup_no_false_hit [of ?c ?alpha "0x35" _ 0] slot(2) entry by simp
  have again: "retrieve ?c 0 = Some ?alpha"
    using lookup_no_false_hit [of ?c ?alpha "0x35" 0] ok hit by blast
  have miss1: "lookup ?c ?omega 0x45 = None"
    using lookup_no_false_hit [of ?c ?omega "0x45" _ _ 0 ?alpha] slot(1) entry(1) ne by blast
  have miss2: "lookup ?c ?omega 0x35 = None"
    using lookup_no_false_hit [of ?c ?omega "0x35" _ _ 0 ?alpha] slot(2) entry(1) ne by blast
  from ok hit again miss1 miss2 show ?thesis
    by blast
qed

section \<open>Properties of the forward transform\<close>

lemma writeBytes_unbounded: "writeBytes None bytes s = Some (s \<lparr> en_dst := en_dst s @ bytes \<rparr>)"
  by (simp add: writeBytes_def)

lemma writeBytes_bounded:
  "writeBytes (Some k) bytes s = Some s' \<longleftrightarrow> writeBytes None bytes s = Some s' \<and> length (en_dst s') \<le> k"
  by (auto simp add: writeBytes_def)

lemma writeBytes_grows: "writeBytes dstEnd bytes s = Some s' \<Longrightarrow> length (en_dst s) \<le> length (en_dst s')"
  by (auto simp add: writeBytes_def split: if_splits)

lemma closeWord_bounded:
  "closeWord P (Some k) w s = Some s' \<longleftrightarrow> closeWord P None w s = Some s' \<and> length (en_dst s') \<le> k"
  by (auto simp add: closeWord_def writeBytes_def split: option.splits)

lemma closeWord_grows: "closeWord P dstEnd w s = Some s' \<Longrightarrow> length (en_dst s) \<le> length (en_dst s')"
  by (auto simp add: closeWord_def writeBytes_def split: option.splits if_splits)

lemma copyByte_bounded:
  "copyByte P (Some k) b s = Some s' \<longleftrightarrow> copyByte P None b s = Some s' \<and> length (en_dst s') \<le> k"
  by (auto simp add: copyByte_def writeBytes_def)

lemma copyByte_grows: "copyByte P dstEnd b s = Some s' \<Longrightarrow> length (en_dst s) \<le> length (en_dst s')"
  by (auto simp add: copyByte_def writeBytes_def split: if_splits)

lemma fwdStep_grows:
  assumes "fwdStep P dstEnd s b = Some s'"
  shows "length (en_dst s) \<le> length (en_dst s')"
proof (cases "en_state s")
  case COPY
  with assms show ?thesis
    by (auto simp add: fwdStep_def split: if_splits dest: copyByte_grows)
next
  case (IN_WORD w)
  show ?thesis
  proof (cases "is_delimiter P b")
    case False
    with IN_WORD assms show ?thesis
      by (auto simp add: fwdStep_def)
  next
    case True
    with IN_WORD assms obtain s1 where s1: "closeWord P dstEnd w s = Some s1"
      "copyByte P dstEnd b (s1 \<lparr> en_state := COPY \<rparr>) = Some s'"
      by (auto simp add: fwdStep_def split: option.splits)
    from closeWord_grows [OF s1(1)] copyByte_grows [OF s1(2)] show ?thesis
      by simp
  qed
qed

lemma bounded_None:
  assumes "\<And>r. f (Some k) = Some r \<longleftrightarrow> f None = Some r \<and> length (en_dst r) \<le> (k :: nat)"
    and "f None = Some r" and "\<not> length (en_dst r) \<le> k"
  shows "f (Some k) = None"
proof (cases "f (Some k)")
  case None
  then show ?thesis .
next
  case (Some r')
  with assms(1) [of r'] assms(2, 3) show ?thesis
    by simp
qed

lemma bounded_None':
  assumes "\<And>r. f (Some k) = Some r \<longleftrightarrow> f None = Some r \<and> length (en_dst r) \<le> (k :: nat)"
    and "f None = None"
  shows "f (Some k) = None"
proof (cases "f (Some k)")
  case None
  then show ?thesis .
next
  case (Some r')
  with assms(1) [of r'] assms(2) show ?thesis
    by simp
qed

lemma fwdStep_bounded:
  assumes "length (en_dst s) \<le> k"
  shows "fwdStep P (Some k) s b = Some s' \<longleftrightarrow>
    fwdStep P None s b = Some s' \<and> length (en_dst s') \<le> k"
proof (cases "en_state s")
  case COPY
  show ?thesis
  proof (cases "startsWord P (en_codec s) b")
    case True
    with COPY assms show ?thesis
      by (auto simp add: fwdStep_def)
  next
    case False
    with COPY have "fwdStep P d s b = copyByte P d b s" for d
      by (simp add: fwdStep_def)
    then show ?thesis
      by (simp add: copyByte_bounded)
  qed
next
  case (IN_WORD w)
  show ?thesis
  proof (cases "is_delimiter P b")
    case False
    with IN_WORD assms show ?thesis
      by (auto simp add: fwdStep_def)
  next
    case True
    with IN_WORD have step: "fwdStep P d s b =
        (case closeWord P d w s of None \<Rightarrow> None
         | Some s1 \<Rightarrow> copyByte P d b (s1 \<lparr> en_state := COPY \<rparr>))" for d
      by (simp add: fwdStep_def)
    show ?thesis
    proof (cases "closeWord P None w s")
      case None
      then have "closeWord P (Some k) w s = None"
        by (rule bounded_None' [where f = "\<lambda>d. closeWord P d w s", OF closeWord_bounded])
      with None show ?thesis
        by (simp add: step)
    next
      case (Some s1)
      show ?thesis
      proof (cases "length (en_dst s1) \<le> k")
        case True
        then have "closeWord P (Some k) w s = Some s1"
          using Some by (simp add: closeWord_bounded)
        with Some show ?thesis
          by (simp add: step copyByte_bounded)
      next
        case False
        have n: "closeWord P (Some k) w s = None"
          by (rule bounded_None [where f = "\<lambda>d. closeWord P d w s", OF closeWord_bounded Some False])
        have "\<not> length (en_dst s') \<le> k"
          if "copyByte P None b (s1 \<lparr> en_state := COPY \<rparr>) = Some s'"
          using copyByte_grows [OF that] False by simp
        with n Some show ?thesis
          by (auto simp add: step)
      qed
    qed
  qed
qed

lemma fwdRun_grows: "fwdRun P dstEnd s src = Some s' \<Longrightarrow> length (en_dst s) \<le> length (en_dst s')"
proof (induction src arbitrary: s)
  case Nil
  then show ?case by simp
next
  case (Cons b src)
  then obtain s1 where s1: "fwdStep P dstEnd s b = Some s1"
    "fwdRun P dstEnd (s1 \<lparr> en_srcIdx := en_srcIdx s1 + 1 \<rparr>) src = Some s'"
    by (auto split: option.splits)
  from fwdStep_grows [OF s1(1)] Cons.IH [OF s1(2)] show ?case
    by simp
qed

lemma fwdRun_bounded:
  assumes "length (en_dst s) \<le> k"
  shows "fwdRun P (Some k) s src = Some s' \<longleftrightarrow>
    fwdRun P None s src = Some s' \<and> length (en_dst s') \<le> k"
  using assms
proof (induction src arbitrary: s)
  case Nil
  then show ?case by auto
next
  case (Cons b src)
  note sb = fwdStep_bounded [OF Cons.prems, of P b]
  show ?case
  proof (cases "fwdStep P None s b")
    case None
    then have "fwdStep P (Some k) s b = None"
      by (rule bounded_None' [where f = "\<lambda>d. fwdStep P d s b", OF sb])
    with None show ?thesis by simp
  next
    case (Some s1)
    show ?thesis
    proof (cases "length (en_dst s1) \<le> k")
      case True
      then have "fwdStep P (Some k) s b = Some s1"
        using Some by (simp add: sb)
      moreover from True have "length (en_dst (s1 \<lparr> en_srcIdx := en_srcIdx s1 + 1 \<rparr>)) \<le> k"
        by simp
      ultimately show ?thesis
        using Some Cons.IH by simp
    next
      case False
      have n: "fwdStep P (Some k) s b = None"
        by (rule bounded_None [where f = "\<lambda>d. fwdStep P d s b", OF sb Some False])
      have "\<not> length (en_dst s') \<le> k"
        if "fwdRun P None (s1 \<lparr> en_srcIdx := en_srcIdx s1 + 1 \<rparr>) src = Some s'"
        using fwdRun_grows [OF that] False by simp
      with n Some show ?thesis by auto
    qed
  qed
qed

lemma fwdFinish_grows: "fwdFinish P dstEnd s = Some s' \<Longrightarrow> length (en_dst s) \<le> length (en_dst s')"
  by (auto simp add: fwdFinish_def split: fwd_state.splits dest!: closeWord_grows)

lemma fwdFinish_bounded:
  assumes "length (en_dst s) \<le> k"
  shows "fwdFinish P (Some k) s = Some s' \<longleftrightarrow>
    fwdFinish P None s = Some s' \<and> length (en_dst s') \<le> k"
proof (cases "en_state s")
  case COPY
  with assms show ?thesis by (auto simp add: fwdFinish_def)
next
  case (IN_WORD w)
  then show ?thesis
    by (auto simp add: fwdFinish_def closeWord_bounded)
qed

lemma encode_bounded:
  "encode P (Some k) c src = Some s' \<longleftrightarrow> encode P None c src = Some s' \<and> length (en_dst s') \<le> k"
proof -
  let ?s0 = "\<lparr> en_codec = c, en_dst = [], en_srcIdx = 0, en_state = COPY \<rparr>"
  have z: "length (en_dst ?s0) \<le> k" by simp
  show ?thesis
  proof (cases "fwdRun P None ?s0 src")
    case None
    then have "fwdRun P (Some k) ?s0 src = None"
      by (rule bounded_None' [where f = "\<lambda>d. fwdRun P d ?s0 src", OF fwdRun_bounded [OF z]])
    with None show ?thesis by (simp add: encode_def)
  next
    case (Some s1)
    show ?thesis
    proof (cases "length (en_dst s1) \<le> k")
      case True
      then have "fwdRun P (Some k) ?s0 src = Some s1"
        using Some by (simp add: fwdRun_bounded [OF z])
      with Some fwdFinish_bounded [OF True] show ?thesis by (simp add: encode_def)
    next
      case False
      have n: "fwdRun P (Some k) ?s0 src = None"
        by (rule bounded_None [where f = "\<lambda>d. fwdRun P d ?s0 src", OF fwdRun_bounded [OF z] Some False])
      have "\<not> length (en_dst s') \<le> k" if "fwdFinish P None s1 = Some s'"
        using fwdFinish_grows [OF that] False by simp
      with n Some show ?thesis by (auto simp add: encode_def)
    qed
  qed
qed

lemma closeWord_unbounded_total: "\<exists>s'. closeWord P None w s = Some s'"
  by (simp add: closeWord_def writeBytes_def split: option.splits)

lemma copyByte_unbounded_total: "\<exists>s'. copyByte P None b s = Some s'"
  by (simp add: copyByte_def writeBytes_def)

lemma fwdStep_unbounded_total: "\<exists>s'. fwdStep P None s b = Some s'"
proof (cases "en_state s")
  case COPY
  then show ?thesis
    using copyByte_unbounded_total [of P b s] by (auto simp add: fwdStep_def)
next
  case (IN_WORD w)
  obtain s1 where s1: "closeWord P None w s = Some s1"
    using closeWord_unbounded_total by blast
  obtain s2 where "copyByte P None b (s1 \<lparr> en_state := COPY \<rparr>) = Some s2"
    using copyByte_unbounded_total by blast
  with s1 IN_WORD show ?thesis
    by (auto simp add: fwdStep_def)
qed

lemma fwdRun_unbounded_total: "\<exists>s'. fwdRun P None s src = Some s'"
proof (induction src arbitrary: s)
  case Nil
  show ?case by simp
next
  case (Cons b src)
  obtain s1 where "fwdStep P None s b = Some s1"
    using fwdStep_unbounded_total by blast
  with Cons.IH [of "s1 \<lparr> en_srcIdx := en_srcIdx s1 + 1 \<rparr>"] show ?case by simp
qed

lemma fwdFinish_unbounded_total: "\<exists>s'. fwdFinish P None s = Some s'"
  using closeWord_unbounded_total [of P _ s]
  by (auto simp add: fwdFinish_def split: fwd_state.splits)

lemma encode_unbounded_total: "\<exists>s. encode P None c src = Some s"
proof -
  obtain s1 where "fwdRun P None \<lparr> en_codec = c, en_dst = [], en_srcIdx = 0, en_state = COPY \<rparr> src = Some s1"
    using fwdRun_unbounded_total by blast
  then show ?thesis
    using fwdFinish_unbounded_total [of P s1] by (simp add: encode_def)
qed

lemma sint_of_nat_int32:
  assumes "n < 2147483648"
  shows "sint (of_nat n :: int32) = int n"
proof -
  have u: "uint (of_nat n :: int32) = int n"
    using assms by (simp add: uint_nat unat_of_nat)
  have c: "- (2 ^ 31) \<le> int n"
    by (rule order_trans [of _ 0]) simp_all
  have d: "int n < 2 ^ 31"
    using assms by simp
  have "signed_take_bit 31 (int n) = int n"
    using c d by (rule signed_take_bit_int_eq_self)
  then show ?thesis
    by (simp only: sint_uint u) simp
qed

lemma dstEnd_is_length:
  "length src < 2147483648 \<Longrightarrow> nat (sint (getMaxEncodedLength (of_nat (length src)))) = length src"
  by (simp only: getMaxEncodedLength_def sint_of_nat_int32 nat_int)

text \<open>
  C2. \<open>forward\<close> reports success only with an output strictly shorter than the
  source, and that output is the one the transform produces without a capacity
  bound. For a source whose length fits the \<^verbatim>\<open>int\<close> parameter, the verdict is
  decided by that output alone: success when it is strictly shorter than the source,
  the failure flag when it is as long or longer, which covers every run in which a
  write would pass the capacity \<^verbatim>\<open>getMaxEncodedLength(length)\<close>.
\<close>

theorem forward_never_expands:
  "(forward P c src = Some out \<longrightarrow>
      length out < length src \<and> (\<exists>s. encode P None c src = Some s \<and> en_dst s = out))
   \<and> (length src < 2147483648 \<longrightarrow>
        (\<exists>s. encode P None c src = Some s \<and>
           forward P c src = (if length (en_dst s) < length src then Some (en_dst s) else None)))"
proof -
  have a: "length out < length src \<and> (\<exists>s. encode P None c src = Some s \<and> en_dst s = out)"
    if "forward P c src = Some out"
    using that by (auto simp add: forward_def encode_bounded split: option.splits if_splits)
  have b: "\<exists>s. encode P None c src = Some s \<and>
      forward P c src = (if length (en_dst s) < length src then Some (en_dst s) else None)"
    if small: "length src < 2147483648"
  proof -
    obtain s where s: "encode P None c src = Some s"
      using encode_unbounded_total by blast
    have fw: "forward P c src =
        (case encode P (Some (length src)) c src of
           None \<Rightarrow> None
         | Some s \<Rightarrow> if length (en_dst s) < length src then Some (en_dst s) else None)"
      unfolding forward_def dstEnd_is_length [OF small] by (rule refl)
    have "forward P c src = (if length (en_dst s) < length src then Some (en_dst s) else None)"
    proof (cases "length (en_dst s) \<le> length src")
      case True
      then have e: "encode P (Some (length src)) c src = Some s"
        using s by (simp add: encode_bounded)
      show ?thesis
        by (subst fw, subst e) (simp only: option.case)
    next
      case False
      have e: "encode P (Some (length src)) c src = None"
        by (rule bounded_None [where f = "\<lambda>d. encode P d c src", OF encode_bounded s False])
      from False have "\<not> length (en_dst s) < length src"
        by simp
      then show ?thesis
        by (subst fw, subst e) (simp only: option.case if_False)
    qed
    with s show ?thesis
      by blast
  qed
  from a b show ?thesis
    by blast
qed

lemmas example_defs = forward_def encode_def fwdFinish_def fwdStep_def closeWord_def
  copyByte_def writeBytes_def startsWord_def is_delimiter_def is_text_def isDelimiter_def
  isText_def tableAt_def promote_def indexBytes_def lookup_def insert_word_def emptyCodec_def
  exampleCodec_def exampleParams_def exampleHash_def HASH1_def HASH2_def DICTIONARY_SIZE_def
  LOG_DICT_SIZE_def DictEntry_new_def getMaxEncodedLength_def DEFAULT_ESCAPE_TOKEN1_def
  DEFAULT_ESCAPE_TOKEN2_def

lemma forward_the_the:
  "forward exampleParams exampleCodec [0x74, 0x68, 0x65, 0x20, 0x74, 0x68, 0x65]
     = Some [0x40, 0, 0x20, 0x40, 0]"
  by (simp add: example_defs)

lemma forward_cat: "forward exampleParams exampleCodec [0x63, 0x61, 0x74] = None"
  by (simp add: example_defs)

lemma forward_escapes: "forward exampleParams exampleCodec [0x40, 0x5E] = None"
  by (simp add: example_defs)

text \<open>
  \<^verbatim>\<open>"the the"\<close> is encoded in 5 bytes, two references around the space; \<^verbatim>\<open>"cat"\<close> would be
  copied in 3 bytes and \<^verbatim>\<open>"@^"\<close> would take 4, so both are failures.
\<close>

theorem forward_never_expands_witness:
  "forward exampleParams exampleCodec [0x74, 0x68, 0x65, 0x20, 0x74, 0x68, 0x65]
     = Some [0x40, 0, 0x20, 0x40, 0]
   \<and> length [0x40, 0, 0x20, 0x40, 0 :: byte] < length [0x74, 0x68, 0x65, 0x20, 0x74, 0x68, 0x65 :: byte]
   \<and> length [0x63, 0x61, 0x74 :: byte] < 2147483648
   \<and> forward exampleParams exampleCodec [0x63, 0x61, 0x74] = None
   \<and> forward exampleParams exampleCodec [0x40, 0x5E] = None"
  using forward_never_expands [of exampleParams exampleCodec
      "[0x74, 0x68, 0x65, 0x20, 0x74, 0x68, 0x65]" "[0x40, 0, 0x20, 0x40, 0]"]
    forward_never_expands [of exampleParams exampleCodec "[0x63, 0x61, 0x74]"]
    forward_the_the forward_cat forward_escapes
  by simp

end
